theory Spec2Isabelle
  imports Complex_Main "HOL-Library.Char_ord" "HOL-Library.List_Lexorder" "HOL-Library.AList"
begin

section \<open>Variant statistics of a VCF file (deepvariant/vcf\_stats.py)\<close>

text \<open>
  A shallow embedding of \<^verbatim>\<open>src/deepvariant/vcf_stats.py\<close>. Python's unbounded integers
  are \<open>int\<close>, its strings are \<open>string\<close>, \<open>None\<close> is \<open>None\<close> of an option type, and every
  exception is a value \<open>Inl e\<close> of a sum type. Python floats are modelled as \<open>real\<close>:
  the arithmetic is exact, so rounding errors of IEEE doubles are outside the model. The
  means of the summary, which numpy can return as \<^verbatim>\<open>nan\<close>, are of the type \<open>pyfloat\<close>.
\<close>

subsection \<open>Data model\<close>

datatype error = KeyError | ValueError | IndexError | InhomogeneousColumn

text \<open>
  What the nucleus accessors return for a field of one integer (the depth \<^verbatim>\<open>DP\<close>, the
  genotype quality \<^verbatim>\<open>GQ\<close>): the integer, or, when the call does not have the field, the
  empty list \<^verbatim>\<open>[]\<close>. The module stores the value as it is.
\<close>

datatype format_value = Number int | EmptyList

text \<open>
  A Python float: a real number (the arithmetic is exact) or \<^verbatim>\<open>nan\<close>, which numpy returns
  for the mean of no number at all.
\<close>

datatype pyfloat = Float real | NaN

text \<open>
  The variant record of the nucleus library, with the fields the module reads. The type
  \<open>'c\<close> is the genotype call (a \<^verbatim>\<open>VariantCall\<close>), which the module only hands on to the
  nucleus accessors.
\<close>

record 'c Variant =
  var_reference_name :: string
  var_start :: int
  var_reference_bases :: string
  var_alternate_bases :: "string list"
  var_calls :: "'c list"

text \<open>
  The functions of \<^verbatim>\<open>third_party.nucleus.util.variant_utils\<close> (prefix \<open>vu\<close>) and
  \<^verbatim>\<open>variantcall_utils\<close> (prefix \<open>vcu\<close>) that the module calls. Their code is not part of the
  repository, so they are parameters: every theorem below holds for every implementation
  of them. \<open>'r\<close> is the VCF reader. \<open>vcu_get_format_DP c\<close> stands for
  \<^verbatim>\<open>get_format(c, 'DP')\<close> and \<open>vcu_get_format_VAF c r\<close> for \<^verbatim>\<open>get_format(c, 'VAF', r)\<close>.
  The accessors that look a call up may raise; the predicates are total.
\<close>

record ('c, 'r) nucleus =
  vu_is_variant_call :: "'c Variant \<Rightarrow> bool"
  vu_is_biallelic :: "'c Variant \<Rightarrow> bool"
  vu_is_snp :: "'c Variant \<Rightarrow> bool"
  vu_is_insertion :: "string \<Rightarrow> string \<Rightarrow> bool"
  vu_is_deletion :: "string \<Rightarrow> string \<Rightarrow> bool"
  vu_is_transition :: "string \<Rightarrow> string \<Rightarrow> bool"
  vu_only_call :: "'c Variant \<Rightarrow> error + 'c"
  vcu_get_format_DP :: "'c \<Rightarrow> error + format_value"
  vcu_get_format_VAF :: "'c \<Rightarrow> 'r \<Rightarrow> error + real list"
  vcu_get_gq :: "'c \<Rightarrow> error + format_value"
  vcu_get_gt :: "'c \<Rightarrow> error + int list"

text \<open>The namedtuple \<^verbatim>\<open>VariantStats\<close>, its twelve columns in the source's order.\<close>

record VariantStats =
  reference_name :: string
  position :: int
  reference_bases :: string
  alternate_bases :: "string list"
  variant_type :: string
  is_variant :: bool
  is_transition :: bool
  is_transversion :: bool
  depth :: format_value
  genotype_quality :: format_value
  genotype :: string
  vaf :: "real option"

text \<open>The namedtuple \<^verbatim>\<open>VCFSummaryStats\<close>.\<close>

record VCFSummaryStats =
  record_count :: int
  variant_count :: int
  snv_count :: int
  insertion_count :: int
  deletion_count :: int
  mnp_count :: int
  complex_count :: int
  depth_mean :: pyfloat
  depth_stdev :: pyfloat
  gq_mean :: pyfloat
  gq_stdev :: pyfloat
  transition_count :: int
  transversion_count :: int

text \<open>One bin of a histogram: the dictionary with keys \<^verbatim>\<open>bin_start\<close>, \<^verbatim>\<open>bin_end\<close>, \<^verbatim>\<open>count\<close>.\<close>

record HistogramEntry =
  bin_start :: real
  bin_end :: real
  count :: int

subsection \<open>The category labels\<close>

definition BIALLELIC_SNP :: string where "BIALLELIC_SNP = ''Biallelic_SNP''"
definition BIALLELIC_INSERTION :: string where "BIALLELIC_INSERTION = ''Biallelic_Insertion''"
definition BIALLELIC_DELETION :: string where "BIALLELIC_DELETION = ''Biallelic_Deletion''"
definition BIALLELIC_MNP :: string where "BIALLELIC_MNP = ''Biallelic_MNP''"
definition MULTIALLELIC_SNP :: string where "MULTIALLELIC_SNP = ''Multiallelic_SNP''"
definition MULTIALLELIC_INSERTION :: string where "MULTIALLELIC_INSERTION = ''Multiallelic_Insertion''"
definition MULTIALLELIC_DELETION :: string where "MULTIALLELIC_DELETION = ''Multiallelic_Deletion''"
definition MULTIALLELIC_COMPLEX :: string where "MULTIALLELIC_COMPLEX = ''Multiallelic_Complex''"
definition REFCALL :: string where "REFCALL = ''RefCall''"

subsection \<open>Classifier\<close>

text \<open>
  \<^verbatim>\<open>_get_variant_type\<close> (a name cannot start with an underscore here). Python's \<^verbatim>\<open>all\<close>
  over the alternate alleles is \<open>list_all\<close>: it is true of an empty sequence.
\<close>

definition get_variant_type :: "('c, 'r) nucleus \<Rightarrow> 'c Variant \<Rightarrow> string" where
  "get_variant_type nu variant =
     (if vu_is_variant_call nu variant then
        (let biallelic = vu_is_biallelic nu variant;
             snp = vu_is_snp nu variant;
             insertion = list_all (\<lambda>alt. vu_is_insertion nu (var_reference_bases variant) alt)
                           (var_alternate_bases variant);
             deletion = list_all (\<lambda>alt. vu_is_deletion nu (var_reference_bases variant) alt)
                          (var_alternate_bases variant)
         in if biallelic then
              (if snp then BIALLELIC_SNP
               else if insertion then BIALLELIC_INSERTION
               else if deletion then BIALLELIC_DELETION
               else BIALLELIC_MNP)
            else
              (if snp then MULTIALLELIC_SNP
               else if insertion then MULTIALLELIC_INSERTION
               else if deletion then MULTIALLELIC_DELETION
               else MULTIALLELIC_COMPLEX))
      else REFCALL)"

text \<open>
  \<^verbatim>\<open>_tstv\<close>. \<^verbatim>\<open>variant.alternate_bases[0]\<close> raises IndexError when there is no alternate
  allele.
\<close>

definition tstv :: "('c, 'r) nucleus \<Rightarrow> 'c Variant \<Rightarrow> string \<Rightarrow> error + bool \<times> bool" where
  "tstv nu variant vtype =
     (if vtype = BIALLELIC_SNP then
        (case var_alternate_bases variant of
           [] \<Rightarrow> Inl IndexError
         | alt0 # _ \<Rightarrow>
             (let transition = vu_is_transition nu (var_reference_bases variant) alt0
              in Inr (transition, \<not> transition)))
      else Inr (False, False))"

subsection \<open>Per-variant statistics\<close>

text \<open>\<^verbatim>\<open>sum(vafs)\<close>: Python adds from the left, starting at 0.\<close>

definition py_sum :: "real list \<Rightarrow> real" where
  "py_sum xs = foldl (+) 0 xs"

text \<open>\<^verbatim>\<open>_get_vaf\<close>.\<close>

definition get_vaf :: "('c, 'r) nucleus \<Rightarrow> 'c Variant \<Rightarrow> 'r \<Rightarrow> error + real" where
  "get_vaf nu variant vcf_reader =
     (case vu_only_call nu variant of
        Inl e \<Rightarrow> Inl e
      | Inr c \<Rightarrow>
          (case vcu_get_format_VAF nu c vcf_reader of
             Inl e \<Rightarrow> Inl e
           | Inr vafs \<Rightarrow> Inr (py_sum vafs)))"

text \<open>\<^verbatim>\<open>str\<close> of an integer and of a list of integers, as in \<^verbatim>\<open>str([0, 1]) == '[0, 1]'\<close>.\<close>

fun str_nat :: "nat \<Rightarrow> string" where
  "str_nat n =
     (if n < 10 then [''0123456789'' ! n]
      else str_nat (n div 10) @ [''0123456789'' ! (n mod 10)])"

declare str_nat.simps [simp del]

definition str_int :: "int \<Rightarrow> string" where
  "str_int i = (if i < 0 then CHR ''-'' # str_nat (nat (- i)) else str_nat (nat i))"

fun join_comma :: "string list \<Rightarrow> string" where
  "join_comma [] = []"
| "join_comma [s] = s"
| "join_comma (s # t # ts) = s @ '', '' @ join_comma (t # ts)"

definition str_int_list :: "int list \<Rightarrow> string" where
  "str_int_list xs = ''['' @ join_comma (map str_int xs) @ '']''"

text \<open>
  \<^verbatim>\<open>get_variant_stats\<close>. The source evaluates, in this order: the type, the flags, the vaf
  (only with a reader), then the arguments of the constructor, of which
  \<^verbatim>\<open>only_call\<close>, \<^verbatim>\<open>get_format(.., 'DP')\<close>, \<^verbatim>\<open>get_gq\<close> and \<^verbatim>\<open>get_gt\<close> may raise.
\<close>

definition get_variant_stats ::
  "('c, 'r) nucleus \<Rightarrow> 'c Variant \<Rightarrow> 'r option \<Rightarrow> error + VariantStats" where
  "get_variant_stats nu variant vcf_reader =
     (let vtype = get_variant_type nu variant in
      case tstv nu variant vtype of
        Inl e \<Rightarrow> Inl e
      | Inr (transition, transversion) \<Rightarrow>
      (case (case vcf_reader of
               None \<Rightarrow> Inr None
             | Some r \<Rightarrow> (case get_vaf nu variant r of Inl e \<Rightarrow> Inl e | Inr x \<Rightarrow> Inr (Some x))) of
         Inl e \<Rightarrow> Inl e
       | Inr vaf_value \<Rightarrow>
       (case vu_only_call nu variant of
          Inl e \<Rightarrow> Inl e
        | Inr c \<Rightarrow>
        (case vcu_get_format_DP nu c of
           Inl e \<Rightarrow> Inl e
         | Inr dp \<Rightarrow>
         (case vcu_get_gq nu c of
            Inl e \<Rightarrow> Inl e
          | Inr gq \<Rightarrow>
          (case vcu_get_gt nu c of
             Inl e \<Rightarrow> Inl e
           | Inr gt \<Rightarrow>
               Inr \<lparr> reference_name = var_reference_name variant,
                     position = var_start variant + 1,
                     reference_bases = var_reference_bases variant,
                     alternate_bases = var_alternate_bases variant,
                     variant_type = vtype,
                     is_variant = vu_is_variant_call nu variant,
                     is_transition = transition,
                     is_transversion = transversion,
                     depth = dp,
                     genotype_quality = gq,
                     genotype = str_int_list (sort gt),
                     vaf = vaf_value \<rparr>))))))"

text \<open>
  \<^verbatim>\<open>single_variant_stats\<close>: the list comprehension, which stops at the first record
  whose statistics raise.
\<close>

fun single_variant_stats ::
  "('c, 'r) nucleus \<Rightarrow> 'c Variant list \<Rightarrow> 'r option \<Rightarrow> error + VariantStats list" where
  "single_variant_stats nu [] vcf_reader = Inr []"
| "single_variant_stats nu (v # vs) vcf_reader =
     (case get_variant_stats nu v vcf_reader of
        Inl e \<Rightarrow> Inl e
      | Inr s \<Rightarrow>
          (case single_variant_stats nu vs vcf_reader of
             Inl e \<Rightarrow> Inl e
           | Inr ss \<Rightarrow> Inr (s # ss)))"

subsection \<open>Summary statistics\<close>

text \<open>
  \<^verbatim>\<open>sum\<close> of a sequence of booleans counts the true ones.
\<close>

definition sum_bools :: "bool list \<Rightarrow> int" where
  "sum_bools bs = sum_list (map (\<lambda>b. if b then 1 else 0) bs)"

text \<open>
  \<^verbatim>\<open>np.mean\<close> and \<^verbatim>\<open>np.std\<close> of a column of depths or genotype qualities, as numpy
  documents them. numpy first makes an array of the column:
  \<^item> a column of integers is an array of numbers: the mean is their sum over their number,
    and the standard deviation is the square root of the mean of the squared deviations
    from the mean (\<^verbatim>\<open>ddof=0\<close>, the default, which the source does not change);
  \<^item> a column of empty lists is an array without elements (of shape \<open>n \<times> 0\<close>), and so is
    an empty column: the mean and the standard deviation of no number are \<^verbatim>\<open>nan\<close>, with a
    warning and no exception;
  \<^item> a column that mixes integers and empty lists raises: numpy 1.24 and later refuse to
    make the array (ValueError), earlier versions fail when they add an integer and a
    list (TypeError). The model has the one error \<open>InhomogeneousColumn\<close> for both.
\<close>

definition numbers :: "format_value list \<Rightarrow> real list" where
  "numbers col = concat (map (\<lambda>x. case x of Number i \<Rightarrow> [real_of_int i] | EmptyList \<Rightarrow> []) col)"

definition np_array :: "format_value list \<Rightarrow> error + real list" where
  "np_array col =
     (if list_all (\<lambda>x. x \<noteq> EmptyList) col \<or> list_all (\<lambda>x. x = EmptyList) col
      then Inr (numbers col)
      else Inl InhomogeneousColumn)"

definition np_mean :: "format_value list \<Rightarrow> error + pyfloat" where
  "np_mean col =
     (case np_array col of
        Inl e \<Rightarrow> Inl e
      | Inr xs \<Rightarrow> if xs = [] then Inr NaN else Inr (Float (sum_list xs / real (length xs))))"

definition np_std :: "format_value list \<Rightarrow> error + pyfloat" where
  "np_std col =
     (case np_array col of
        Inl e \<Rightarrow> Inl e
      | Inr xs \<Rightarrow>
          if xs = [] then Inr NaN
          else (let m = sum_list xs / real (length xs)
                in Inr (Float (sqrt (sum_list (map (\<lambda>x. (abs (x - m))\<^sup>2) xs)
                                       / real (length xs))))))"

text \<open>
  \<^verbatim>\<open>summary_stats\<close>. \<^verbatim>\<open>zip(*single_stats)\<close> of an empty list has no columns, so
  \<^verbatim>\<open>transposed_dict\<close> is empty and the first lookup, \<^verbatim>\<open>transposed_dict['is_variant']\<close>,
  raises KeyError. Otherwise the column of a field is that field of every record, in
  order. The counts are computed before the means, and none of them can raise.
\<close>

definition summary_stats :: "VariantStats list \<Rightarrow> error + VCFSummaryStats" where
  "summary_stats single_stats =
     (if single_stats = [] then Inl KeyError
      else
        (case np_mean (map depth single_stats) of
           Inl e \<Rightarrow> Inl e
         | Inr dmean \<Rightarrow>
         (case np_std (map depth single_stats) of
            Inl e \<Rightarrow> Inl e
          | Inr dstd \<Rightarrow>
          (case np_mean (map genotype_quality single_stats) of
             Inl e \<Rightarrow> Inl e
           | Inr gmean \<Rightarrow>
           (case np_std (map genotype_quality single_stats) of
              Inl e \<Rightarrow> Inl e
            | Inr gstd \<Rightarrow>
                Inr \<lparr> record_count = int (length single_stats),
                      variant_count = sum_bools (map is_variant single_stats),
                      snv_count = sum_bools
                        (map (\<lambda>t. t = BIALLELIC_SNP \<or> t = MULTIALLELIC_SNP)
                           (map variant_type single_stats)),
                      insertion_count = sum_bools
                        (map (\<lambda>t. t = BIALLELIC_INSERTION \<or> t = MULTIALLELIC_INSERTION)
                           (map variant_type single_stats)),
                      deletion_count = sum_bools
                        (map (\<lambda>t. t = BIALLELIC_DELETION \<or> t = MULTIALLELIC_DELETION)
                           (map variant_type single_stats)),
                      mnp_count = sum_bools
                        (map (\<lambda>t. t = BIALLELIC_MNP) (map variant_type single_stats)),
                      complex_count = sum_bools
                        (map (\<lambda>t. t = MULTIALLELIC_COMPLEX) (map variant_type single_stats)),
                      depth_mean = dmean,
                      depth_stdev = dstd,
                      gq_mean = gmean,
                      gq_stdev = gstd,
                      transition_count = sum_bools (map is_transition single_stats),
                      transversion_count = sum_bools (map is_transversion single_stats) \<rparr>)))))"

subsection \<open>Histograms of the allele frequency by genotype\<close>

text \<open>
  \<^verbatim>\<open>np.histogram(a, bins=n, range=(0, 1))\<close> with an integer \<^verbatim>\<open>n\<close>, as numpy computes it
  for equal-width bins: a non-positive \<^verbatim>\<open>n\<close> raises ValueError; the edges are
  \<^verbatim>\<open>linspace(0, 1, n + 1)\<close>; the values outside of \<open>[0, 1]\<close> are dropped; a kept value
  \<open>v\<close> goes to the bin of index \<open>\<lfloor>v * n\<rfloor>\<close>, and to the last bin when \<open>v = 1\<close>; the
  counts are the number of values in each bin.
\<close>

definition np_linspace01 :: "nat \<Rightarrow> real list" where
  "np_linspace01 n = map (\<lambda>i. real i / real n) [0..<Suc n]"

definition bin_index :: "nat \<Rightarrow> real \<Rightarrow> nat" where
  "bin_index n v = min (nat \<lfloor>v * real n\<rfloor>) (n - 1)"

definition np_histogram :: "real list \<Rightarrow> int \<Rightarrow> error + (int list \<times> real list)" where
  "np_histogram a bins =
     (if bins < 1 then Inl ValueError
      else
        (let n = nat bins;
             keep = filter (\<lambda>v. 0 \<le> v \<and> v \<le> 1) a;
             indices = map (bin_index n) keep
         in Inr (map (\<lambda>i. int (length (filter (\<lambda>j. j = i) indices))) [0..<n],
                 np_linspace01 n)))"

text \<open>
  \<^verbatim>\<open>round(x, 10)\<close> of a numpy float: the nearest multiple of \<open>10\<^sup>-\<^sup>1\<^sup>0\<close>, a tie going to the
  even one.
\<close>

definition round_half_even :: "real \<Rightarrow> int" where
  "round_half_even x =
     (let f = \<lfloor>x\<rfloor>; r = x - of_int f
      in if r < 1 / 2 then f
         else if 1 / 2 < r then f + 1
         else if even f then f else f + 1)"

definition round_ndigits :: "real \<Rightarrow> nat \<Rightarrow> real" where
  "round_ndigits x d = of_int (round_half_even (x * 10 ^ d)) / 10 ^ d"

text \<open>
  \<^verbatim>\<open>itertools.groupby\<close>: the maximal runs of consecutive elements with the same key, each
  with its key.
\<close>

function groupby :: "('a \<Rightarrow> 'k) \<Rightarrow> 'a list \<Rightarrow> ('k \<times> 'a list) list" where
  "groupby key [] = []"
| "groupby key (x # xs) =
     (key x, x # takeWhile (\<lambda>y. key y = key x) xs)
       # groupby key (dropWhile (\<lambda>y. key y = key x) xs)"
  by pat_completeness auto
termination
  by (relation "measure (\<lambda>(key, xs). length xs)")
     (auto simp: length_dropWhile_le le_imp_less_Suc)

text \<open>
  The body of the loop for one group: the vafs that are not \<^verbatim>\<open>None\<close>, their histogram,
  the edges rounded, and one entry per count. \<^verbatim>\<open>bins[idx + 1]\<close> is always in range:
  numpy returns one edge more than counts (lemma \<open>np_histogram_lengths\<close>).
\<close>

definition group_vafs :: "VariantStats list \<Rightarrow> real list" where
  "group_vafs grp = map (\<lambda>x. the (vaf x)) (filter (\<lambda>x. vaf x \<noteq> None) grp)"

definition vega_formatted_hist :: "int list \<Rightarrow> real list \<Rightarrow> HistogramEntry list" where
  "vega_formatted_hist counts bins =
     map (\<lambda>(idx, c). \<lparr> bin_start = bins ! idx, bin_end = bins ! (idx + 1), count = c \<rparr>)
       (enumerate 0 counts)"

definition group_histogram :: "VariantStats list \<Rightarrow> int \<Rightarrow> error + HistogramEntry list" where
  "group_histogram grp number_of_bins =
     (case np_histogram (group_vafs grp) number_of_bins of
        Inl e \<Rightarrow> Inl e
      | Inr (counts, bins) \<Rightarrow>
          Inr (vega_formatted_hist counts (map (\<lambda>x. round_ndigits x 10) bins)))"

text \<open>
  The loop over the groups. The dictionary \<^verbatim>\<open>stats_by_genotype\<close> is an association list
  in insertion order; \<^verbatim>\<open>d[k] = v\<close> replaces the value of a key that is there and adds a
  new key at the end, which is \<open>AList.update\<close>.
\<close>

fun histogram_loop ::
  "int \<Rightarrow> (string \<times> VariantStats list) list \<Rightarrow> (string \<times> HistogramEntry list) list
     \<Rightarrow> error + (string \<times> HistogramEntry list) list" where
  "histogram_loop number_of_bins [] stats_by_genotype = Inr stats_by_genotype"
| "histogram_loop number_of_bins ((g, grp) # rest) stats_by_genotype =
     (case group_histogram grp number_of_bins of
        Inl e \<Rightarrow> Inl e
      | Inr h \<Rightarrow> histogram_loop number_of_bins rest (AList.update g h stats_by_genotype))"

text \<open>
  \<^verbatim>\<open>vaf_histograms_by_genotype\<close>. \<^verbatim>\<open>sorted\<close> is stable, as \<open>sort_key\<close> is; strings compare
  lexicographically by character code.
\<close>

definition vaf_histograms_by_genotype ::
  "VariantStats list \<Rightarrow> int \<Rightarrow> error + (string \<times> HistogramEntry list) list" where
  "vaf_histograms_by_genotype single_stats number_of_bins =
     (let sorted_by_genotype = sort_key genotype single_stats;
          grouped_by_genotype = groupby genotype sorted_by_genotype
      in histogram_loop number_of_bins grouped_by_genotype [])"

subsection \<open>Example collaborators and inputs\<close>

text \<open>
  A concrete genotype call and a concrete implementation of the nucleus functions, after
  the conventions the specification describes (a biallelic record has exactly one
  alternate allele, an insertion is longer than the reference, a deletion shorter, a
  record must have exactly one call). They serve to run the theorems on concrete inputs;
  no theorem assumes them.
\<close>

record example_call =
  call_dp :: format_value
  call_gq :: format_value
  call_gt :: "int list"
  call_vaf :: "real list"

definition example_nucleus :: "(example_call, unit) nucleus" where
  "example_nucleus =
     \<lparr> vu_is_variant_call =
         (\<lambda>v. var_alternate_bases v \<noteq> [] \<and>
              list_ex (\<lambda>c. list_ex (\<lambda>a. 0 < a) (call_gt c)) (var_calls v)),
       vu_is_biallelic = (\<lambda>v. length (var_alternate_bases v) = 1),
       vu_is_snp =
         (\<lambda>v. length (var_reference_bases v) = 1 \<and> var_alternate_bases v \<noteq> [] \<and>
              list_all (\<lambda>alt. length alt = 1) (var_alternate_bases v)),
       vu_is_insertion = (\<lambda>ref alt. length ref < length alt),
       vu_is_deletion = (\<lambda>ref alt. length alt < length ref),
       vu_is_transition =
         (\<lambda>a b. (a = ''A'' \<or> a = ''G'') \<and> (b = ''A'' \<or> b = ''G'') \<or>
                (a = ''C'' \<or> a = ''T'') \<and> (b = ''C'' \<or> b = ''T'')),
       vu_only_call = (\<lambda>v. case var_calls v of [c] \<Rightarrow> Inr c | _ \<Rightarrow> Inl ValueError),
       vcu_get_format_DP = (\<lambda>c. Inr (call_dp c)),
       vcu_get_format_VAF = (\<lambda>c r. Inr (call_vaf c)),
       vcu_get_gq = (\<lambda>c. Inr (call_gq c)),
       vcu_get_gt = (\<lambda>c. Inr (call_gt c)) \<rparr>"

text \<open>
  A collaborator whose three conditions all hold of every record, to run the classifier
  where the conditions overlap.
\<close>

definition overlap_nucleus :: "(example_call, unit) nucleus" where
  "overlap_nucleus =
     example_nucleus \<lparr> vu_is_snp := (\<lambda>v. True),
                       vu_is_insertion := (\<lambda>ref alt. True),
                       vu_is_deletion := (\<lambda>ref alt. True) \<rparr>"

definition het_call :: example_call where
  "het_call = \<lparr> call_dp = Number 30, call_gq = Number 40, call_gt = [1, 0], call_vaf = [1 / 2] \<rparr>"

definition ref_call :: example_call where
  "ref_call = \<lparr> call_dp = Number 10, call_gq = Number 50, call_gt = [0, 0], call_vaf = [0] \<rparr>"

definition snp_variant :: "example_call Variant" where
  "snp_variant =
     \<lparr> var_reference_name = ''chr1'', var_start = 99, var_reference_bases = ''A'',
       var_alternate_bases = [''G''], var_calls = [het_call] \<rparr>"

definition insertion_variant :: "example_call Variant" where
  "insertion_variant =
     \<lparr> var_reference_name = ''chr1'', var_start = 199, var_reference_bases = ''A'',
       var_alternate_bases = [''AT''], var_calls = [het_call] \<rparr>"

definition refcall_variant :: "example_call Variant" where
  "refcall_variant =
     \<lparr> var_reference_name = ''chr1'', var_start = 299, var_reference_bases = ''C'',
       var_alternate_bases = [''T''], var_calls = [ref_call] \<rparr>"

definition two_allele_call :: example_call where
  "two_allele_call =
     \<lparr> call_dp = Number 20, call_gq = Number 30, call_gt = [2, 1], call_vaf = [1 / 4, 1 / 2] \<rparr>"

definition multiallelic_variant :: "example_call Variant" where
  "multiallelic_variant =
     \<lparr> var_reference_name = ''chr2'', var_start = 9, var_reference_bases = ''A'',
       var_alternate_bases = [''C'', ''G''], var_calls = [two_allele_call] \<rparr>"

text \<open>A record without a genotype call, on which \<open>vu_only_call example_nucleus\<close> raises.\<close>

definition no_call_variant :: "example_call Variant" where
  "no_call_variant =
     \<lparr> var_reference_name = ''chr2'', var_start = 19, var_reference_bases = ''A'',
       var_alternate_bases = [''C''], var_calls = [] \<rparr>"

text \<open>The statistics of the example records, as the builder returns them.\<close>

definition snp_stats :: VariantStats where
  "snp_stats =
     \<lparr> reference_name = ''chr1'', position = 100, reference_bases = ''A'',
       alternate_bases = [''G''], variant_type = ''Biallelic_SNP'', is_variant = True,
       is_transition = True, is_transversion = False, depth = Number 30,
       genotype_quality = Number 40, genotype = ''[0, 1]'', vaf = Some (1 / 2) \<rparr>"

definition refcall_stats :: VariantStats where
  "refcall_stats =
     \<lparr> reference_name = ''chr1'', position = 300, reference_bases = ''C'',
       alternate_bases = [''T''], variant_type = ''RefCall'', is_variant = False,
       is_transition = False, is_transversion = False, depth = Number 10,
       genotype_quality = Number 50, genotype = ''[0, 0]'', vaf = Some 0 \<rparr>"

definition multiallelic_stats :: VariantStats where
  "multiallelic_stats =
     \<lparr> reference_name = ''chr2'', position = 10, reference_bases = ''A'',
       alternate_bases = [''C'', ''G''], variant_type = ''Multiallelic_SNP'',
       is_variant = True, is_transition = False, is_transversion = False, depth = Number 20,
       genotype_quality = Number 30, genotype = ''[1, 2]'', vaf = Some (3 / 4) \<rparr>"

text \<open>
  A call without the field \<^verbatim>\<open>DP\<close>: the accessor returns the empty list, and the builder
  stores it as the depth of the record.
\<close>

definition no_depth_call :: example_call where
  "no_depth_call = \<lparr> call_dp = EmptyList, call_gq = Number 40, call_gt = [0, 1], call_vaf = [1 / 2] \<rparr>"

definition no_depth_variant :: "example_call Variant" where
  "no_depth_variant =
     \<lparr> var_reference_name = ''chr3'', var_start = 0, var_reference_bases = ''A'',
       var_alternate_bases = [''G''], var_calls = [no_depth_call] \<rparr>"

definition no_depth_stats :: VariantStats where
  "no_depth_stats =
     \<lparr> reference_name = ''chr3'', position = 1, reference_bases = ''A'',
       alternate_bases = [''G''], variant_type = ''Biallelic_SNP'', is_variant = True,
       is_transition = True, is_transversion = False, depth = EmptyList,
       genotype_quality = Number 40, genotype = ''[0, 1]'', vaf = Some (1 / 2) \<rparr>"


section \<open>Properties\<close>

lemmas label_defs =
  BIALLELIC_SNP_def BIALLELIC_INSERTION_def BIALLELIC_DELETION_def BIALLELIC_MNP_def
  MULTIALLELIC_SNP_def MULTIALLELIC_INSERTION_def MULTIALLELIC_DELETION_def
  MULTIALLELIC_COMPLEX_def REFCALL_def

subsection \<open>Classification precedence\<close>

text \<open>
  C1. For a record that is a called variant, the classifier tests SNP, then insertion,
  then deletion, and the first that holds decides: the SNP category whenever the SNP
  condition holds; the insertion category whenever it fails and every alternate allele
  is an insertion; the deletion category whenever both fail and every alternate allele
  is a deletion; otherwise Biallelic\_MNP or Multiallelic\_Complex. Whether other
  conditions hold as well does not matter. The biallelic flag only selects between the
  two labels of a category.
\<close>

theorem classification_precedence:
  assumes "vu_is_variant_call nu v"
  shows "(vu_is_snp nu v \<longrightarrow>
            get_variant_type nu v =
              (if vu_is_biallelic nu v then BIALLELIC_SNP else MULTIALLELIC_SNP))
       \<and> (\<not> vu_is_snp nu v
            \<and> (\<forall>alt \<in> set (var_alternate_bases v). vu_is_insertion nu (var_reference_bases v) alt) \<longrightarrow>
            get_variant_type nu v =
              (if vu_is_biallelic nu v then BIALLELIC_INSERTION else MULTIALLELIC_INSERTION))
       \<and> (\<not> vu_is_snp nu v
            \<and> \<not> (\<forall>alt \<in> set (var_alternate_bases v). vu_is_insertion nu (var_reference_bases v) alt)
            \<and> (\<forall>alt \<in> set (var_alternate_bases v). vu_is_deletion nu (var_reference_bases v) alt) \<longrightarrow>
            get_variant_type nu v =
              (if vu_is_biallelic nu v then BIALLELIC_DELETION else MULTIALLELIC_DELETION))
       \<and> (\<not> vu_is_snp nu v
            \<and> \<not> (\<forall>alt \<in> set (var_alternate_bases v). vu_is_insertion nu (var_reference_bases v) alt)
            \<and> \<not> (\<forall>alt \<in> set (var_alternate_bases v). vu_is_deletion nu (var_reference_bases v) alt) \<longrightarrow>
            get_variant_type nu v =
              (if vu_is_biallelic nu v then BIALLELIC_MNP else MULTIALLELIC_COMPLEX))"
  using assms by (simp add: get_variant_type_def Let_def list_all_iff)

theorem classification_precedence_witness:
  "vu_is_variant_call overlap_nucleus snp_variant
   \<and> vu_is_snp overlap_nucleus snp_variant
   \<and> list_all (vu_is_insertion overlap_nucleus (var_reference_bases snp_variant))
       (var_alternate_bases snp_variant)
   \<and> list_all (vu_is_deletion overlap_nucleus (var_reference_bases snp_variant))
       (var_alternate_bases snp_variant)
   \<and> get_variant_type overlap_nucleus snp_variant = ''Biallelic_SNP''
   \<and> vu_is_variant_call example_nucleus insertion_variant
   \<and> get_variant_type example_nucleus insertion_variant = ''Biallelic_Insertion''"
proof -
  have a: "vu_is_variant_call overlap_nucleus snp_variant"
    by (simp add: overlap_nucleus_def example_nucleus_def snp_variant_def het_call_def)
  have b: "vu_is_variant_call example_nucleus insertion_variant"
    by (simp add: example_nucleus_def insertion_variant_def het_call_def)
  show ?thesis
    using classification_precedence [OF a] classification_precedence [OF b] a b
    by (simp add: overlap_nucleus_def example_nucleus_def snp_variant_def
        insertion_variant_def label_defs)
qed

subsection \<open>Empty input to the summary\<close>

text \<open>
  C5. \<open>summary_stats\<close> of an empty sequence fails: it raises (a KeyError, from the lookup
  of a column in the empty transposed dictionary) and returns no summary.
\<close>

theorem summary_stats_empty_fails:
  "summary_stats [] = Inl KeyError \<and> (\<nexists>s. summary_stats [] = Inr s)"
  by (simp add: summary_stats_def)

subsection \<open>The per-variant builder\<close>

text \<open>What a successful call of \<open>get_variant_stats\<close> has computed, field by field.\<close>

lemma tstv_flags:
  "tstv nu v vtype = Inr (t, tv) \<Longrightarrow>
     (vtype = BIALLELIC_SNP \<longrightarrow> t = (\<not> tv)) \<and> (vtype \<noteq> BIALLELIC_SNP \<longrightarrow> \<not> t \<and> \<not> tv)"
  by (auto simp: tstv_def Let_def split: if_splits list.splits)

lemma get_variant_stats_Inr:
  assumes "get_variant_stats nu v r = Inr s"
  shows "\<exists>t tv c dp gq gt.
           tstv nu v (get_variant_type nu v) = Inr (t, tv)
         \<and> vu_only_call nu v = Inr c
         \<and> vcu_get_format_DP nu c = Inr dp
         \<and> vcu_get_gq nu c = Inr gq
         \<and> vcu_get_gt nu c = Inr gt
         \<and> (case r of None \<Rightarrow> vaf s = None
             | Some rd \<Rightarrow> \<exists>x. get_vaf nu v rd = Inr x \<and> vaf s = Some x)
         \<and> variant_type s = get_variant_type nu v
         \<and> is_variant s = vu_is_variant_call nu v
         \<and> is_transition s = t \<and> is_transversion s = tv
         \<and> depth s = dp \<and> genotype_quality s = gq
         \<and> genotype s = str_int_list (sort gt)
         \<and> position s = var_start v + 1"
  using assms
  by (auto simp: get_variant_stats_def Let_def split: sum.splits option.splits prod.splits)

lemma py_sum_sum_list: "py_sum xs = sum_list xs"
proof -
  have "foldl (+) a xs = a + sum_list xs" for a :: real
    by (induction xs arbitrary: a) auto
  then show ?thesis by (simp add: py_sum_def)
qed

text \<open>The builder on the example records.\<close>

lemmas example_defs =
  get_variant_stats_def get_variant_type_def tstv_def get_vaf_def py_sum_def
  example_nucleus_def label_defs str_int_list_def str_int_def str_nat.simps

lemma build_snp:
  "get_variant_stats example_nucleus snp_variant (Some ()) = Inr snp_stats"
  by (simp add: example_defs snp_variant_def het_call_def snp_stats_def)

lemma build_refcall:
  "get_variant_stats example_nucleus refcall_variant (Some ()) = Inr refcall_stats"
  by (simp add: example_defs refcall_variant_def ref_call_def refcall_stats_def)

lemma build_refcall_no_reader:
  "get_variant_stats example_nucleus refcall_variant None = Inr (refcall_stats \<lparr> vaf := None \<rparr>)"
  by (simp add: example_defs refcall_variant_def ref_call_def refcall_stats_def)

lemma build_multiallelic:
  "get_variant_stats example_nucleus multiallelic_variant (Some ()) = Inr multiallelic_stats"
  by (simp add: example_defs multiallelic_variant_def two_allele_call_def
      multiallelic_stats_def)

lemma build_no_call:
  "get_variant_stats example_nucleus no_call_variant r = Inl ValueError"
  by (cases r) (simp_all add: example_defs no_call_variant_def)

text \<open>
  C2. The flags \<open>is_transition\<close> and \<open>is_transversion\<close> of the statistics the builder
  returns are never both true; both are false when the type is not Biallelic\_SNP; and
  exactly one is true when it is.
\<close>

theorem flags_exclusive:
  assumes "get_variant_stats nu v r = Inr s"
  shows "\<not> (is_transition s \<and> is_transversion s)
       \<and> (variant_type s \<noteq> BIALLELIC_SNP \<longrightarrow> \<not> is_transition s \<and> \<not> is_transversion s)
       \<and> (variant_type s = BIALLELIC_SNP \<longrightarrow> is_transition s = (\<not> is_transversion s))"
proof -
  from get_variant_stats_Inr [OF assms] obtain t tv where
    "tstv nu v (get_variant_type nu v) = Inr (t, tv)"
    "variant_type s = get_variant_type nu v" "is_transition s = t" "is_transversion s = tv"
    by blast
  with tstv_flags [of nu v "get_variant_type nu v" t tv] show ?thesis by auto
qed

theorem flags_exclusive_witness:
  "get_variant_stats example_nucleus snp_variant (Some ()) = Inr snp_stats
 \<and> variant_type snp_stats = BIALLELIC_SNP
 \<and> is_transition snp_stats \<and> \<not> is_transversion snp_stats
 \<and> get_variant_stats example_nucleus multiallelic_variant (Some ()) = Inr multiallelic_stats
 \<and> variant_type multiallelic_stats \<noteq> BIALLELIC_SNP
 \<and> \<not> is_transition multiallelic_stats \<and> \<not> is_transversion multiallelic_stats"
  using flags_exclusive [OF build_snp] flags_exclusive [OF build_multiallelic]
  by (simp add: build_snp build_multiallelic snp_stats_def multiallelic_stats_def label_defs)

text \<open>
  C4. The field \<open>vaf\<close> of the statistics the builder returns is \<open>None\<close> when no reader is
  given; with a reader it is the sum of the VAF values that \<open>get_format\<close> returns for
  the only call of the record.
\<close>

theorem vaf_field:
  "(get_variant_stats nu v None = Inr s \<longrightarrow> vaf s = None)
 \<and> (get_variant_stats nu v (Some rd) = Inr s \<longrightarrow>
      (\<exists>c vafs. vu_only_call nu v = Inr c \<and> vcu_get_format_VAF nu c rd = Inr vafs
               \<and> vaf s = Some (sum_list vafs)))"
proof (intro conjI impI)
  assume "get_variant_stats nu v None = Inr s"
  from get_variant_stats_Inr [OF this] show "vaf s = None" by auto
next
  assume "get_variant_stats nu v (Some rd) = Inr s"
  from get_variant_stats_Inr [OF this] obtain x where
    x: "get_vaf nu v rd = Inr x" "vaf s = Some x" by auto
  then show "\<exists>c vafs. vu_only_call nu v = Inr c \<and> vcu_get_format_VAF nu c rd = Inr vafs
               \<and> vaf s = Some (sum_list vafs)"
    by (auto simp: get_vaf_def py_sum_sum_list split: sum.splits)
qed

theorem vaf_field_witness:
  "get_variant_stats example_nucleus refcall_variant None = Inr (refcall_stats \<lparr> vaf := None \<rparr>)
 \<and> vaf (refcall_stats \<lparr> vaf := None \<rparr>) = None
 \<and> get_variant_stats example_nucleus multiallelic_variant (Some ()) = Inr multiallelic_stats
 \<and> vu_only_call example_nucleus multiallelic_variant = Inr two_allele_call
 \<and> vcu_get_format_VAF example_nucleus two_allele_call () = Inr [1 / 4, 1 / 2]
 \<and> vaf multiallelic_stats = Some (1 / 4 + 1 / 2)"
proof -
  have "vaf (refcall_stats \<lparr> vaf := None \<rparr>) = None"
    using vaf_field [where nu = example_nucleus and v = refcall_variant
        and s = "refcall_stats \<lparr> vaf := None \<rparr>"] build_refcall_no_reader by simp
  moreover have "\<exists>c vafs. vu_only_call example_nucleus multiallelic_variant = Inr c
      \<and> vcu_get_format_VAF example_nucleus c () = Inr vafs
      \<and> vaf multiallelic_stats = Some (sum_list vafs)"
    using vaf_field [where nu = example_nucleus and v = multiallelic_variant
        and s = multiallelic_stats and rd = "()"] build_multiallelic by simp
  then have "vu_only_call example_nucleus multiallelic_variant = Inr two_allele_call
      \<and> vcu_get_format_VAF example_nucleus two_allele_call () = Inr [1 / 4, 1 / 2]
      \<and> vaf multiallelic_stats = Some (1 / 4 + 1 / 2)"
    by (auto simp: example_nucleus_def multiallelic_variant_def two_allele_call_def)
  ultimately show ?thesis using build_refcall_no_reader build_multiallelic by blast
qed

text \<open>
  C9. The batch operation returns one result per input record, in the input's order:
  it returns \<open>out\<close> exactly when \<open>out\<close> is as long as the input and its element at every
  index is what the builder returns for the record at that index. Nothing is dropped,
  merged or reordered. (It raises exactly when the builder raises on some record.)
\<close>

theorem batch_one_to_one:
  "single_variant_stats nu vs r = Inr out \<longleftrightarrow>
     length out = length vs \<and> (\<forall>i < length vs. get_variant_stats nu (vs ! i) r = Inr (out ! i))"
proof (induction vs arbitrary: out)
  case Nil
  then show ?case by auto
next
  case (Cons v vs)
  show ?case
  proof (cases out)
    case Nil
    then show ?thesis by (auto split: sum.splits)
  next
    case (Cons s ss)
    have "single_variant_stats nu (v # vs) r = Inr (s # ss) \<longleftrightarrow>
            get_variant_stats nu v r = Inr s \<and> single_variant_stats nu vs r = Inr ss"
      by (auto split: sum.splits)
    also have "\<dots> \<longleftrightarrow> get_variant_stats nu v r = Inr s \<and> length ss = length vs
                 \<and> (\<forall>i < length vs. get_variant_stats nu (vs ! i) r = Inr (ss ! i))"
      using Cons.IH [of ss] by simp
    also have "\<dots> \<longleftrightarrow> length (s # ss) = length (v # vs)
                 \<and> (\<forall>i < length (v # vs).
                       get_variant_stats nu ((v # vs) ! i) r = Inr ((s # ss) ! i))"
      by (auto simp: nth_Cons split: nat.splits)
    finally show ?thesis using Cons by simp
  qed
qed

theorem batch_one_to_one_witness:
  "single_variant_stats example_nucleus [snp_variant, refcall_variant, multiallelic_variant]
     (Some ()) = Inr [snp_stats, refcall_stats, multiallelic_stats]"
proof -
  have "\<forall>i < length [snp_variant, refcall_variant, multiallelic_variant].
          get_variant_stats example_nucleus
            ([snp_variant, refcall_variant, multiallelic_variant] ! i) (Some ())
          = Inr ([snp_stats, refcall_stats, multiallelic_stats] ! i)"
    by (simp add: nth_Cons build_snp build_refcall build_multiallelic split: nat.splits)
  then show ?thesis
    using batch_one_to_one [of example_nucleus
        "[snp_variant, refcall_variant, multiallelic_variant]" "Some ()"
        "[snp_stats, refcall_stats, multiallelic_stats]"]
    by simp
qed

subsection \<open>The summary\<close>

text \<open>When \<open>summary_stats\<close> returns, and what its counts and means are.\<close>

lemma sum_bools_count: "sum_bools (map P xs) = int (length (filter P xs))"
  by (induction xs) (auto simp: sum_bools_def)


lemma numbers_EmptyList: "\<forall>x \<in> set col. x = EmptyList \<Longrightarrow> numbers col = []"
  by (induction col) (auto simp: numbers_def)



lemma np_array_EmptyList: "\<forall>x \<in> set col. x = EmptyList \<Longrightarrow> np_array col = Inr []"
  by (simp add: np_array_def numbers_EmptyList list_all_iff)

lemma np_array_mixed:
  "Number i \<in> set col \<Longrightarrow> EmptyList \<in> set col \<Longrightarrow> np_array col = Inl InhomogeneousColumn"
  by (auto simp: np_array_def list_all_iff)

lemma np_array_Inr_iff:
  "(\<exists>xs. np_array col = Inr xs) \<longleftrightarrow>
     (\<forall>x \<in> set col. x \<noteq> EmptyList) \<or> (\<forall>x \<in> set col. x = EmptyList)"
  by (simp add: np_array_def list_all_iff)



lemma np_mean_EmptyList: "\<forall>x \<in> set col. x = EmptyList \<Longrightarrow> np_mean col = Inr NaN"
  by (simp add: np_mean_def np_array_EmptyList)


lemma np_mean_Inr_iff:
  "(\<exists>m. np_mean col = Inr m) \<longleftrightarrow>
     (\<forall>x \<in> set col. x \<noteq> EmptyList) \<or> (\<forall>x \<in> set col. x = EmptyList)"
  unfolding np_array_Inr_iff [symmetric] by (auto simp: np_mean_def split: sum.splits)

lemma np_std_Inr_iff:
  "(\<exists>m. np_std col = Inr m) \<longleftrightarrow>
     (\<forall>x \<in> set col. x \<noteq> EmptyList) \<or> (\<forall>x \<in> set col. x = EmptyList)"
  unfolding np_array_Inr_iff [symmetric] by (auto simp: np_std_def Let_def split: sum.splits)

lemma summary_stats_Inr_iff:
  "(\<exists>s. summary_stats stats = Inr s) \<longleftrightarrow>
     stats \<noteq> []
     \<and> ((\<forall>x \<in> set stats. depth x \<noteq> EmptyList) \<or> (\<forall>x \<in> set stats. depth x = EmptyList))
     \<and> ((\<forall>x \<in> set stats. genotype_quality x \<noteq> EmptyList)
        \<or> (\<forall>x \<in> set stats. genotype_quality x = EmptyList))"
proof
  assume "\<exists>s. summary_stats stats = Inr s"
  then obtain s where s: "summary_stats stats = Inr s" ..
  then have ne: "stats \<noteq> []" by (auto simp: summary_stats_def)
  from s ne obtain m1 m2 where "np_mean (map depth stats) = Inr m1"
    "np_mean (map genotype_quality stats) = Inr m2"
    by (auto simp: summary_stats_def split: sum.splits)
  then show "stats \<noteq> []
     \<and> ((\<forall>x \<in> set stats. depth x \<noteq> EmptyList) \<or> (\<forall>x \<in> set stats. depth x = EmptyList))
     \<and> ((\<forall>x \<in> set stats. genotype_quality x \<noteq> EmptyList)
        \<or> (\<forall>x \<in> set stats. genotype_quality x = EmptyList))"
    using ne np_mean_Inr_iff [of "map depth stats"] np_mean_Inr_iff [of "map genotype_quality stats"]
    by auto
next
  assume h: "stats \<noteq> []
     \<and> ((\<forall>x \<in> set stats. depth x \<noteq> EmptyList) \<or> (\<forall>x \<in> set stats. depth x = EmptyList))
     \<and> ((\<forall>x \<in> set stats. genotype_quality x \<noteq> EmptyList)
        \<or> (\<forall>x \<in> set stats. genotype_quality x = EmptyList))"
  then obtain m1 where "np_mean (map depth stats) = Inr m1"
    using np_mean_Inr_iff [of "map depth stats"] by auto
  moreover from h obtain m2 where "np_std (map depth stats) = Inr m2"
    using np_std_Inr_iff [of "map depth stats"] by auto
  moreover from h obtain m3 where "np_mean (map genotype_quality stats) = Inr m3"
    using np_mean_Inr_iff [of "map genotype_quality stats"] by auto
  moreover from h obtain m4 where "np_std (map genotype_quality stats) = Inr m4"
    using np_std_Inr_iff [of "map genotype_quality stats"] by auto
  ultimately show "\<exists>s. summary_stats stats = Inr s"
    using h by (simp add: summary_stats_def)
qed

lemma summary_stats_counts:
  assumes "summary_stats stats = Inr s"
  shows "record_count s = int (length stats)"
    and "variant_count s = int (length (filter is_variant stats))"
    and "snv_count s = int (length (filter (\<lambda>x. variant_type x = BIALLELIC_SNP \<or> variant_type x = MULTIALLELIC_SNP) stats))"
    and "insertion_count s = int (length (filter (\<lambda>x. variant_type x = BIALLELIC_INSERTION \<or> variant_type x = MULTIALLELIC_INSERTION) stats))"
    and "deletion_count s = int (length (filter (\<lambda>x. variant_type x = BIALLELIC_DELETION \<or> variant_type x = MULTIALLELIC_DELETION) stats))"
    and "mnp_count s = int (length (filter (\<lambda>x. variant_type x = BIALLELIC_MNP) stats))"
    and "complex_count s = int (length (filter (\<lambda>x. variant_type x = MULTIALLELIC_COMPLEX) stats))"
    and "transition_count s = int (length (filter is_transition stats))"
    and "transversion_count s = int (length (filter is_transversion stats))"
  using assms
  by (auto simp: summary_stats_def sum_bools_count comp_def split: sum.splits if_splits
      simp flip: sum_bools_count)

lemma summary_stats_means:
  assumes "summary_stats stats = Inr s"
  shows "np_mean (map depth stats) = Inr (depth_mean s)"
    and "np_std (map depth stats) = Inr (depth_stdev s)"
    and "np_mean (map genotype_quality stats) = Inr (gq_mean s)"
    and "np_std (map genotype_quality stats) = Inr (gq_stdev s)"
  using assms by (auto simp: summary_stats_def split: sum.splits if_splits)


text \<open>
  What the builder guarantees of the type and the variant flag of a record: it is a
  variant exactly when its type is not RefCall, and its type is one of the nine labels.
\<close>

lemma built_type:
  assumes "get_variant_stats nu v r = Inr s"
  shows "(is_variant s \<longleftrightarrow> variant_type s \<noteq> REFCALL)
       \<and> variant_type s \<in> {BIALLELIC_SNP, BIALLELIC_INSERTION, BIALLELIC_DELETION, BIALLELIC_MNP,
            MULTIALLELIC_SNP, MULTIALLELIC_INSERTION, MULTIALLELIC_DELETION,
            MULTIALLELIC_COMPLEX, REFCALL}"
proof -
  from get_variant_stats_Inr [OF assms] have
    t: "variant_type s = get_variant_type nu v" and i: "is_variant s = vu_is_variant_call nu v"
    by auto
  show ?thesis
  proof (cases "vu_is_variant_call nu v")
    case True
    then have "get_variant_type nu v \<in> {BIALLELIC_SNP, BIALLELIC_INSERTION, BIALLELIC_DELETION,
        BIALLELIC_MNP, MULTIALLELIC_SNP, MULTIALLELIC_INSERTION, MULTIALLELIC_DELETION,
        MULTIALLELIC_COMPLEX}"
      by (simp add: get_variant_type_def Let_def)
    moreover have "REFCALL \<notin> {BIALLELIC_SNP, BIALLELIC_INSERTION, BIALLELIC_DELETION,
        BIALLELIC_MNP, MULTIALLELIC_SNP, MULTIALLELIC_INSERTION, MULTIALLELIC_DELETION,
        MULTIALLELIC_COMPLEX}"
      by (simp add: label_defs)
    ultimately show ?thesis using True t i by auto
  next
    case False
    then have "get_variant_type nu v = REFCALL" by (simp add: get_variant_type_def)
    then show ?thesis using False t i by simp
  qed
qed

lemma single_variant_stats_set:
  "single_variant_stats nu vs r = Inr stats \<Longrightarrow>
     \<forall>s \<in> set stats. \<exists>v \<in> set vs. get_variant_stats nu v r = Inr s"
  by (induction vs arbitrary: stats) (auto split: sum.splits)

lemma category_of_built:
  assumes "(is_variant x \<longleftrightarrow> variant_type x \<noteq> REFCALL)"
    and "variant_type x \<in> {BIALLELIC_SNP, BIALLELIC_INSERTION, BIALLELIC_DELETION, BIALLELIC_MNP,
            MULTIALLELIC_SNP, MULTIALLELIC_INSERTION, MULTIALLELIC_DELETION,
            MULTIALLELIC_COMPLEX, REFCALL}"
  shows "(if variant_type x = BIALLELIC_SNP \<or> variant_type x = MULTIALLELIC_SNP then 1 else 0)
       + (if variant_type x = BIALLELIC_INSERTION \<or> variant_type x = MULTIALLELIC_INSERTION
          then 1 else 0)
       + (if variant_type x = BIALLELIC_DELETION \<or> variant_type x = MULTIALLELIC_DELETION
          then 1 else 0)
       + (if variant_type x = BIALLELIC_MNP then 1 else 0)
       + (if variant_type x = MULTIALLELIC_COMPLEX then 1 else 0)
       = (if is_variant x then 1 else (0::nat))"
  using assms unfolding label_defs by auto

lemma length_filter_Cons:
  "length (filter P (x # xs)) = (if P x then 1 else 0) + length (filter P xs)"
  by simp

lemma counts_of_built:
  assumes "\<forall>x \<in> set stats. (is_variant x \<longleftrightarrow> variant_type x \<noteq> REFCALL)
      \<and> variant_type x \<in> {BIALLELIC_SNP, BIALLELIC_INSERTION, BIALLELIC_DELETION, BIALLELIC_MNP,
            MULTIALLELIC_SNP, MULTIALLELIC_INSERTION, MULTIALLELIC_DELETION,
            MULTIALLELIC_COMPLEX, REFCALL}"
  shows "length (filter (\<lambda>x. variant_type x = BIALLELIC_SNP \<or> variant_type x = MULTIALLELIC_SNP) stats)
       + length (filter (\<lambda>x. variant_type x = BIALLELIC_INSERTION
                            \<or> variant_type x = MULTIALLELIC_INSERTION) stats)
       + length (filter (\<lambda>x. variant_type x = BIALLELIC_DELETION
                            \<or> variant_type x = MULTIALLELIC_DELETION) stats)
       + length (filter (\<lambda>x. variant_type x = BIALLELIC_MNP) stats)
       + length (filter (\<lambda>x. variant_type x = MULTIALLELIC_COMPLEX) stats)
       = length (filter is_variant stats)"
  using assms
proof (induction stats)
  case Nil
  then show ?case by simp
next
  case (Cons x xs)
  from Cons.prems have ih: "length (filter (\<lambda>x. variant_type x = BIALLELIC_SNP \<or> variant_type x = MULTIALLELIC_SNP) xs)
       + length (filter (\<lambda>x. variant_type x = BIALLELIC_INSERTION
                            \<or> variant_type x = MULTIALLELIC_INSERTION) xs)
       + length (filter (\<lambda>x. variant_type x = BIALLELIC_DELETION
                            \<or> variant_type x = MULTIALLELIC_DELETION) xs)
       + length (filter (\<lambda>x. variant_type x = BIALLELIC_MNP) xs)
       + length (filter (\<lambda>x. variant_type x = MULTIALLELIC_COMPLEX) xs)
       = length (filter is_variant xs)"
    by (intro Cons.IH) simp
  from Cons.prems have x: "(is_variant x \<longleftrightarrow> variant_type x \<noteq> REFCALL)"
    "variant_type x \<in> {BIALLELIC_SNP, BIALLELIC_INSERTION, BIALLELIC_DELETION, BIALLELIC_MNP,
            MULTIALLELIC_SNP, MULTIALLELIC_INSERTION, MULTIALLELIC_DELETION,
            MULTIALLELIC_COMPLEX, REFCALL}"
    by simp_all
  show ?case
    unfolding length_filter_Cons using ih category_of_built [OF x] by linarith
qed

lemma refcalls_of_built:
  assumes "\<forall>x \<in> set stats. (is_variant x \<longleftrightarrow> variant_type x \<noteq> REFCALL)"
  shows "length (filter is_variant stats) + length (filter (\<lambda>x. variant_type x = REFCALL) stats)
       = length stats"
  using assms by (induction stats) auto

lemma build_no_depth:
  "get_variant_stats example_nucleus no_depth_variant (Some ()) = Inr no_depth_stats"
  by (simp add: example_defs no_depth_variant_def no_depth_call_def no_depth_stats_def)

lemma batch_examples:
  "single_variant_stats example_nucleus [snp_variant, refcall_variant, multiallelic_variant]
     (Some ()) = Inr [snp_stats, refcall_stats, multiallelic_stats]"
  by (simp add: build_snp build_refcall build_multiallelic)

lemma batch_mixed:
  "single_variant_stats example_nucleus [snp_variant, no_depth_variant] (Some ())
     = Inr [snp_stats, no_depth_stats]"
  by (simp add: build_snp build_no_depth)

lemma batch_no_depth:
  "single_variant_stats example_nucleus [no_depth_variant] (Some ()) = Inr [no_depth_stats]"
  by (simp add: build_no_depth)

text \<open>
  C3, as amended. For every non-empty sequence of statistics that the builder produced
  and in which the depths are either all present or all absent, and likewise the
  genotype qualities, \<open>summary_stats\<close> returns a summary whose \<open>record_count\<close> is the
  length of the input, whose \<open>variant_count\<close> plus the number of RefCall records is
  \<open>record_count\<close>, and whose five category counts add up to \<open>variant_count\<close>.
\<close>

theorem summary_counts:
  assumes "single_variant_stats nu vs r = Inr stats"
    and "stats \<noteq> []"
    and "(\<forall>x \<in> set stats. depth x \<noteq> EmptyList) \<or> (\<forall>x \<in> set stats. depth x = EmptyList)"
    and "(\<forall>x \<in> set stats. genotype_quality x \<noteq> EmptyList)
       \<or> (\<forall>x \<in> set stats. genotype_quality x = EmptyList)"
  shows "\<exists>s. summary_stats stats = Inr s
           \<and> record_count s = int (length stats)
           \<and> variant_count s + int (length (filter (\<lambda>x. variant_type x = REFCALL) stats))
               = record_count s
           \<and> snv_count s + insertion_count s + deletion_count s + mnp_count s + complex_count s
               = variant_count s"
proof -
  from assms(2,3,4) obtain s where s: "summary_stats stats = Inr s"
    using summary_stats_Inr_iff [of stats] by blast
  have built: "\<forall>x \<in> set stats. (is_variant x \<longleftrightarrow> variant_type x \<noteq> REFCALL)
      \<and> variant_type x \<in> {BIALLELIC_SNP, BIALLELIC_INSERTION, BIALLELIC_DELETION, BIALLELIC_MNP,
            MULTIALLELIC_SNP, MULTIALLELIC_INSERTION, MULTIALLELIC_DELETION,
            MULTIALLELIC_COMPLEX, REFCALL}"
    using single_variant_stats_set [OF assms(1)] built_type by blast
  have "variant_count s + int (length (filter (\<lambda>x. variant_type x = REFCALL) stats))
          = record_count s"
    using refcalls_of_built [of stats] built
    by (simp add: summary_stats_counts [OF s] flip: of_nat_add)
  moreover have "snv_count s + insertion_count s + deletion_count s + mnp_count s
          + complex_count s = variant_count s"
    using counts_of_built [OF built]
    by (simp add: summary_stats_counts [OF s] flip: of_nat_add)
  ultimately show ?thesis using s summary_stats_counts(1) [OF s] by blast
qed

theorem summary_counts_witness:
  "single_variant_stats example_nucleus [snp_variant, refcall_variant, multiallelic_variant]
     (Some ()) = Inr [snp_stats, refcall_stats, multiallelic_stats]
 \<and> (\<exists>s. summary_stats [snp_stats, refcall_stats, multiallelic_stats] = Inr s
        \<and> record_count s = 3 \<and> variant_count s = 2 \<and> snv_count s = 2
        \<and> insertion_count s = 0 \<and> deletion_count s = 0 \<and> mnp_count s = 0
        \<and> complex_count s = 0)
 \<and> single_variant_stats example_nucleus [no_depth_variant] (Some ()) = Inr [no_depth_stats]
 \<and> depth no_depth_stats = EmptyList
 \<and> (\<exists>s. summary_stats [no_depth_stats] = Inr s
        \<and> record_count s = 1 \<and> variant_count s = 1 \<and> snv_count s = 1
        \<and> depth_mean s = NaN)"
proof -
  have p: "(\<forall>x \<in> set [snp_stats, refcall_stats, multiallelic_stats]. depth x \<noteq> EmptyList)
         \<or> (\<forall>x \<in> set [snp_stats, refcall_stats, multiallelic_stats]. depth x = EmptyList)"
    "(\<forall>x \<in> set [snp_stats, refcall_stats, multiallelic_stats]. genotype_quality x \<noteq> EmptyList)
     \<or> (\<forall>x \<in> set [snp_stats, refcall_stats, multiallelic_stats]. genotype_quality x = EmptyList)"
    by (simp_all add: snp_stats_def refcall_stats_def multiallelic_stats_def)
  from summary_counts [OF batch_examples _ p] obtain s where
    s: "summary_stats [snp_stats, refcall_stats, multiallelic_stats] = Inr s" by auto
  have c: "record_count s = 3 \<and> variant_count s = 2 \<and> snv_count s = 2
        \<and> insertion_count s = 0 \<and> deletion_count s = 0 \<and> mnp_count s = 0
        \<and> complex_count s = 0"
    by (simp add: summary_stats_counts [OF s] snp_stats_def refcall_stats_def
        multiallelic_stats_def label_defs)
  have q: "(\<forall>x \<in> set [no_depth_stats]. depth x \<noteq> EmptyList)
         \<or> (\<forall>x \<in> set [no_depth_stats]. depth x = EmptyList)"
    "(\<forall>x \<in> set [no_depth_stats]. genotype_quality x \<noteq> EmptyList)
     \<or> (\<forall>x \<in> set [no_depth_stats]. genotype_quality x = EmptyList)"
    by (simp_all add: no_depth_stats_def)
  from summary_counts [OF batch_no_depth _ q] obtain t where
    t: "summary_stats [no_depth_stats] = Inr t" by auto
  have d: "depth no_depth_stats = EmptyList" by (simp add: no_depth_stats_def)
  have "np_mean (map depth [no_depth_stats]) = Inr NaN"
    by (rule np_mean_EmptyList) (simp add: d)
  then have "depth_mean t = NaN" using summary_stats_means(1) [OF t] by simp
  moreover have "record_count t = 1 \<and> variant_count t = 1 \<and> snv_count t = 1"
    by (simp add: summary_stats_counts [OF t] no_depth_stats_def label_defs)
  ultimately show ?thesis using s c t d batch_examples batch_no_depth by blast
qed

text \<open>
  Without the condition on the depths the claim fails. The builder gives the record of a
  call without depth the empty list as its depth; next to a record with a depth, the
  depth column mixes an integer and a list, on which \<^verbatim>\<open>np.mean\<close> raises, so that
  \<open>summary_stats\<close> returns no summary.
\<close>

theorem summary_counts_counterexample:
  "single_variant_stats example_nucleus [snp_variant, no_depth_variant] (Some ())
     = Inr [snp_stats, no_depth_stats]
 \<and> [snp_stats, no_depth_stats] \<noteq> []
 \<and> map depth [snp_stats, no_depth_stats] = [Number 30, EmptyList]
 \<and> summary_stats [snp_stats, no_depth_stats] = Inl InhomogeneousColumn"
proof -
  have d: "map depth [snp_stats, no_depth_stats] = [Number 30, EmptyList]"
    by (simp add: snp_stats_def no_depth_stats_def)
  have "np_array (map depth [snp_stats, no_depth_stats]) = Inl InhomogeneousColumn"
    unfolding d by (rule np_array_mixed [of 30]) simp_all
  then have "summary_stats [snp_stats, no_depth_stats] = Inl InhomogeneousColumn"
    by (simp add: summary_stats_def np_mean_def)
  with d batch_mixed show ?thesis by simp
qed



subsection \<open>The histograms\<close>

text \<open>
  Grouping a list that is sorted by the key: the keys of the groups are distinct, they
  are the keys of the list, and the group of a key holds the elements with that key.
\<close>

lemma dropWhile_sorted_greater:
  fixes key :: "'a \<Rightarrow> 'k::linorder"
  assumes "sorted (map key (x # xs))"
  shows "\<forall>y \<in> set (dropWhile (\<lambda>y. key y = key x) xs). key x < key y"
proof (cases "dropWhile (\<lambda>y. key y = key x) xs")
  case Nil
  then show ?thesis by (simp del: dropWhile_eq_Nil_conv)
next
  case (Cons z zs)
  have xs: "xs = takeWhile (\<lambda>y. key y = key x) xs @ z # zs"
    using Cons takeWhile_dropWhile_id [of "\<lambda>y. key y = key x" xs] by simp
  have "key z \<noteq> key x"
    using Cons hd_dropWhile [of "\<lambda>y. key y = key x" xs] by auto
  moreover have "z \<in> set xs" by (subst xs) simp
  then have "key x \<le> key z" using assms by auto
  ultimately have lt: "key x < key z" by simp
  have "sorted (map key xs)" using assms by simp
  then have "sorted (map key (takeWhile (\<lambda>y. key y = key x) xs @ z # zs))"
    using xs by simp
  then have "sorted (map key (z # zs))"
    by (simp add: sorted_append)
  then have "\<forall>y \<in> set zs. key z \<le> key y" by simp
  with lt show ?thesis using Cons by auto
qed


lemma groupby_sorted:
  fixes key :: "'a \<Rightarrow> 'k::linorder"
  assumes "sorted (map key xs)"
  shows "distinct (map fst (groupby key xs))
       \<and> fst ` set (groupby key xs) = key ` set xs
       \<and> (\<forall>(k, grp) \<in> set (groupby key xs). grp = filter (\<lambda>y. key y = k) xs)"
  using assms
proof (induction key xs rule: groupby.induct)
  case (1 key)
  then show ?case by simp
next
  case (2 key x xs)
  define tw where "tw = takeWhile (\<lambda>y. key y = key x) xs"
  define dw where "dw = dropWhile (\<lambda>y. key y = key x) xs"
  have xs: "xs = tw @ dw" by (simp add: tw_def dw_def)
  have g: "groupby key (x # xs) = (key x, x # tw) # groupby key dw"
    by (simp add: tw_def dw_def)
  have "sorted (map key xs)" using "2.prems" by simp
  then have "sorted (map key dw)" by (simp add: xs sorted_append)
  from "2.IH" [OF this [unfolded dw_def]]
  have IH: "distinct (map fst (groupby key dw))"
    "fst ` set (groupby key dw) = key ` set dw"
    "\<And>k grp. (k, grp) \<in> set (groupby key dw) \<Longrightarrow> grp = filter (\<lambda>y. key y = k) dw"
    by (auto simp: dw_def)
  have gt: "\<forall>y \<in> set dw. key x < key y"
    unfolding dw_def by (rule dropWhile_sorted_greater [OF "2.prems"])
  have tw: "\<forall>y \<in> set tw. key y = key x"
    unfolding tw_def by (auto dest: set_takeWhileD)
  have "key x \<notin> key ` set dw" using gt by auto
  then have d: "distinct (map fst (groupby key (x # xs)))"
    unfolding g using IH(1,2) by simp
  have "key ` set (x # xs) = insert (key x) (key ` set tw \<union> key ` set dw)"
    by (simp add: xs image_Un)
  moreover have "key ` set tw \<subseteq> {key x}" using tw by auto
  ultimately have f: "fst ` set (groupby key (x # xs)) = key ` set (x # xs)"
    unfolding g using IH(2) by auto
  have "filter (\<lambda>y. key y = key x) tw = tw" using tw by (simp add: filter_id_conv)
  moreover have "filter (\<lambda>y. key y = key x) dw = []" using gt by (auto simp: filter_empty_conv)
  ultimately have hd: "x # tw = filter (\<lambda>y. key y = key x) (x # xs)"
    by (simp add: xs)
  have rest: "grp = filter (\<lambda>y. key y = k) (x # xs)"
    if m: "(k, grp) \<in> set (groupby key dw)" for k grp
  proof -
    have "k \<in> fst ` set (groupby key dw)" using m by force
    then have "k \<in> key ` set dw" using IH(2) by simp
    then have k: "key x < k" using gt by auto
    then have "filter (\<lambda>y. key y = k) tw = []" using tw by (auto simp: filter_empty_conv)
    then show ?thesis using IH(3) [OF m] k by (simp add: xs)
  qed
  have "\<forall>(k, grp) \<in> set (groupby key (x # xs)). grp = filter (\<lambda>y. key y = k) (x # xs)"
    unfolding g using hd rest by auto
  with d f show ?case by blast
qed


text \<open>
  The histogram of numpy: with a positive number of bins it returns as many counts, which
  add up to the number of values within \<open>[0, 1]\<close>, and the edges \<open>i / n\<close>.
\<close>

lemma sum_indicator_upt:
  "(\<Sum>i\<leftarrow>[0..<n]. if j = i then 1 else 0) = (if j < n then 1 else (0::nat))"
  by (induction n) auto

lemma bincount_total:
  assumes "\<forall>j \<in> set js. j < n"
  shows "(\<Sum>i\<leftarrow>[0..<n]. length (filter (\<lambda>j. j = i) js)) = length js"
  using assms
proof (induction js)
  case Nil
  then show ?case by simp
next
  case (Cons j js)
  have "(\<Sum>i\<leftarrow>[0..<n]. length (filter (\<lambda>j. j = i) (j # js)))
        = (\<Sum>i\<leftarrow>[0..<n]. (if j = i then 1 else 0) + length (filter (\<lambda>j. j = i) js))"
    by (intro arg_cong [where f = sum_list] map_cong) auto
  also have "\<dots> = (\<Sum>i\<leftarrow>[0..<n]. if j = i then 1 else 0)
                  + (\<Sum>i\<leftarrow>[0..<n]. length (filter (\<lambda>j. j = i) js))"
    by (simp add: sum_list_addf)
  also have "\<dots> = 1 + length js"
    using Cons by (simp add: sum_indicator_upt)
  finally show ?case by simp
qed

lemma bin_index_less: "0 < n \<Longrightarrow> bin_index n v < n"
proof -
  assume "0 < n"
  moreover have "bin_index n v \<le> n - 1" by (simp add: bin_index_def)
  ultimately show ?thesis by linarith
qed

lemma np_histogram_Inr:
  assumes "1 \<le> bins"
  shows "\<exists>counts. np_histogram a bins = Inr (counts, np_linspace01 (nat bins))
           \<and> length counts = nat bins
           \<and> sum_list counts = int (length (filter (\<lambda>v. 0 \<le> v \<and> v \<le> 1) a))
           \<and> (\<forall>c \<in> set counts. 0 \<le> c)"
proof -
  define n where "n = nat bins"
  define js where "js = map (bin_index n) (filter (\<lambda>v. 0 \<le> v \<and> v \<le> 1) a)"
  define counts where "counts = map (\<lambda>i. int (length (filter (\<lambda>j. j = i) js))) [0..<n]"
  have n: "0 < n" using assms by (simp add: n_def)
  have h: "np_histogram a bins = Inr (counts, np_linspace01 (nat bins))"
    using assms by (simp add: np_histogram_def Let_def counts_def js_def n_def)
  have "\<forall>j \<in> set js. j < n" using n by (auto simp: js_def bin_index_less)
  then have "(\<Sum>i\<leftarrow>[0..<n]. length (filter (\<lambda>j. j = i) js)) = length js"
    by (rule bincount_total)
  moreover have "sum_list counts = int (\<Sum>i\<leftarrow>[0..<n]. length (filter (\<lambda>j. j = i) js))"
    unfolding counts_def by (induction n) simp_all
  ultimately have "sum_list counts = int (length (filter (\<lambda>v. 0 \<le> v \<and> v \<le> 1) a))"
    by (simp add: js_def)
  moreover have "length counts = nat bins" by (simp add: counts_def n_def)
  moreover have "\<forall>c \<in> set counts. 0 \<le> c" by (auto simp: counts_def)
  ultimately show ?thesis using h by blast
qed

lemma np_histogram_Inl: "bins < 1 \<Longrightarrow> np_histogram a bins = Inl ValueError"
  by (simp add: np_histogram_def)

lemma np_histogram_empty:
  "1 \<le> bins \<Longrightarrow> np_histogram [] bins = Inr (replicate (nat bins) 0, np_linspace01 (nat bins))"
  by (simp add: np_histogram_def Let_def map_replicate_const)

lemma vega_formatted_hist_eq:
  "vega_formatted_hist counts bins =
     map (\<lambda>i. \<lparr> bin_start = bins ! i, bin_end = bins ! Suc i, count = counts ! i \<rparr>)
       [0..<length counts]"
  unfolding vega_formatted_hist_def
  by (rule nth_equalityI) (simp_all add: nth_enumerate_eq)


lemma np_linspace01_nth: "i \<le> n \<Longrightarrow> np_linspace01 n ! i = real i / real n"
  unfolding np_linspace01_def by (simp add: nth_map_upt del: upt_Suc)

lemma length_np_linspace01: "length (np_linspace01 n) = Suc n"
  by (simp add: np_linspace01_def)

lemma group_histogram_Inr:
  assumes "1 \<le> nb"
  shows "\<exists>counts. length counts = nat nb
           \<and> sum_list counts = int (length (filter (\<lambda>v. 0 \<le> v \<and> v \<le> 1) (group_vafs grp)))
           \<and> (\<forall>c \<in> set counts. 0 \<le> c)
           \<and> group_histogram grp nb =
               Inr (map (\<lambda>i. \<lparr> bin_start = round_ndigits (real i / real (nat nb)) 10,
                               bin_end = round_ndigits (real (Suc i) / real (nat nb)) 10,
                               count = counts ! i \<rparr>) [0..<nat nb])"
proof -
  from np_histogram_Inr [OF assms, of "group_vafs grp"] obtain counts where
    c: "np_histogram (group_vafs grp) nb = Inr (counts, np_linspace01 (nat nb))"
       "length counts = nat nb"
       "sum_list counts = int (length (filter (\<lambda>v. 0 \<le> v \<and> v \<le> 1) (group_vafs grp)))"
       "\<forall>c \<in> set counts. 0 \<le> c"
    by blast
  have "vega_formatted_hist counts (map (\<lambda>x. round_ndigits x 10) (np_linspace01 (nat nb)))
        = map (\<lambda>i. \<lparr> bin_start = round_ndigits (real i / real (nat nb)) 10,
                       bin_end = round_ndigits (real (Suc i) / real (nat nb)) 10,
                       count = counts ! i \<rparr>) [0..<nat nb]"
    unfolding vega_formatted_hist_eq c(2)
    by (rule map_cong) (simp_all add: length_np_linspace01 np_linspace01_nth)
  then have "group_histogram grp nb =
               Inr (map (\<lambda>i. \<lparr> bin_start = round_ndigits (real i / real (nat nb)) 10,
                               bin_end = round_ndigits (real (Suc i) / real (nat nb)) 10,
                               count = counts ! i \<rparr>) [0..<nat nb])"
    by (simp add: group_histogram_def c(1))
  with c show ?thesis by blast
qed

lemma group_histogram_Inl: "nb < 1 \<Longrightarrow> group_histogram grp nb = Inl ValueError"
  by (simp add: group_histogram_def np_histogram_Inl)

text \<open>
  The loop: the keys of the groups are distinct, so every group adds its own key, and
  the result maps the genotype of every record to the histogram of its group.
\<close>

lemma update_fresh: "g \<notin> fst ` set d \<Longrightarrow> AList.update g v d = d @ [(g, v)]"
  by (induction d) auto

lemma histogram_loop_distinct:
  assumes "1 \<le> nb" and "distinct (map fst groups)" and "fst ` set groups \<inter> fst ` set d = {}"
  shows "\<exists>h. histogram_loop nb groups d = Inr (d @ h)
           \<and> map fst h = map fst groups
           \<and> (\<forall>(g, hist) \<in> set h. \<exists>grp. (g, grp) \<in> set groups
                  \<and> group_histogram grp nb = Inr hist)"
  using assms(2,3)
proof (induction groups arbitrary: d)
  case Nil
  then show ?case by simp
next
  case (Cons p groups)
  obtain g grp where p: "p = (g, grp)" by (cases p)
  from group_histogram_Inr [OF assms(1), of grp] obtain hist where
    hist: "group_histogram grp nb = Inr hist" by blast
  have fresh: "g \<notin> fst ` set d" using Cons.prems(2) p by auto
  have "distinct (map fst groups)" using Cons.prems(1) by simp
  moreover have "fst ` set groups \<inter> fst ` set (d @ [(g, hist)]) = {}"
    using Cons.prems p by auto
  ultimately obtain h where h: "histogram_loop nb groups (d @ [(g, hist)]) = Inr ((d @ [(g, hist)]) @ h)"
    "map fst h = map fst groups"
    "\<forall>(g, hist) \<in> set h. \<exists>grp. (g, grp) \<in> set groups \<and> group_histogram grp nb = Inr hist"
    using Cons.IH [of "d @ [(g, hist)]"] by blast
  have "histogram_loop nb (p # groups) d = Inr (d @ ((g, hist) # h))"
    using h(1) by (simp add: p hist update_fresh [OF fresh])
  moreover have "map fst ((g, hist) # h) = map fst (p # groups)"
    using h(2) p by simp
  moreover have "\<forall>(g', hist') \<in> set ((g, hist) # h). \<exists>grp'. (g', grp') \<in> set (p # groups)
                  \<and> group_histogram grp' nb = Inr hist'"
    using h(3) hist p by fastforce
  ultimately show ?case by blast
qed

lemma histograms_Inr:
  assumes "1 \<le> nb"
  shows "\<exists>h. vaf_histograms_by_genotype stats nb = Inr h
           \<and> distinct (map fst h)
           \<and> fst ` set h = genotype ` set stats
           \<and> (\<forall>(g, hist) \<in> set h.
                 group_histogram (filter (\<lambda>x. genotype x = g) (sort_key genotype stats)) nb
                   = Inr hist)"
proof -
  define sorted_by_genotype where "sorted_by_genotype = sort_key genotype stats"
  define groups where "groups = groupby genotype sorted_by_genotype"
  have "sorted (map genotype sorted_by_genotype)" by (simp add: sorted_by_genotype_def)
  from groupby_sorted [OF this] have gs: "distinct (map fst groups)"
    "fst ` set groups = genotype ` set stats"
    "\<And>g grp. (g, grp) \<in> set groups \<Longrightarrow> grp = filter (\<lambda>x. genotype x = g) sorted_by_genotype"
    by (auto simp: groups_def sorted_by_genotype_def)
  from histogram_loop_distinct [OF assms gs(1), of "[]"] obtain h where
    h: "histogram_loop nb groups [] = Inr h" "map fst h = map fst groups"
       "\<forall>(g, hist) \<in> set h. \<exists>grp. (g, grp) \<in> set groups \<and> group_histogram grp nb = Inr hist"
    by auto
  have "vaf_histograms_by_genotype stats nb = Inr h"
    using h(1) by (simp add: vaf_histograms_by_genotype_def groups_def sorted_by_genotype_def)
  moreover have "distinct (map fst h)" using h(2) gs(1) by simp
  moreover have "fst ` set h = genotype ` set stats"
    using h(2) gs(2) by (metis list.set_map)
  moreover have "\<forall>(g, hist) \<in> set h.
      group_histogram (filter (\<lambda>x. genotype x = g) (sort_key genotype stats)) nb = Inr hist"
    using h(3) gs(3) unfolding sorted_by_genotype_def by fastforce
  ultimately show ?thesis by blast
qed

lemma histograms_empty: "vaf_histograms_by_genotype [] nb = Inr []"
  by (simp add: vaf_histograms_by_genotype_def)

lemma histograms_Inl:
  assumes "nb < 1" and "stats \<noteq> []"
  shows "vaf_histograms_by_genotype stats nb = Inl ValueError"
proof -
  have "sort_key genotype stats \<noteq> []" using assms(2) by (metis length_sort length_0_conv)
  then obtain x xs where "sort_key genotype stats = x # xs" by (cases "sort_key genotype stats") auto
  then show ?thesis
    using assms(1) by (simp add: vaf_histograms_by_genotype_def group_histogram_Inl)
qed

text \<open>Rounding to ten decimals leaves a multiple of a tenth as it is, and is monotone.\<close>

lemma round_half_even_of_int: "round_half_even (of_int k) = k"
  by (simp add: round_half_even_def Let_def)

lemma round_ndigits_of_int: "round_ndigits (of_int k) d = of_int k"
proof -
  have "of_int k * (10::real) ^ d = of_int (k * 10 ^ d)" by simp
  then have "round_half_even (of_int k * 10 ^ d) = k * 10 ^ d"
    by (simp only: round_half_even_of_int)
  then show ?thesis by (simp add: round_ndigits_def)
qed

lemma round_ndigits_0: "round_ndigits 0 d = 0"
  using round_ndigits_of_int [of 0 d] by simp

lemma round_ndigits_1: "round_ndigits 1 d = 1"
  using round_ndigits_of_int [of 1 d] by simp



lemma round_ndigits_halves: "round_ndigits (real i / 2) 10 = real i / 2"
proof -
  have "real i / 2 * (10::real) ^ 10 = of_int (int i * 5000000000)" by simp
  then have "round_half_even (real i / 2 * 10 ^ 10) = int i * 5000000000"
    by (simp only: round_half_even_of_int)
  then show ?thesis by (simp add: round_ndigits_def)
qed

lemma round_half_even_mono: "x \<le> y \<Longrightarrow> round_half_even x \<le> round_half_even y"
proof -
  assume xy: "x \<le> y"
  have lo: "\<lfloor>z\<rfloor> \<le> round_half_even z" and hi: "round_half_even z \<le> \<lfloor>z\<rfloor> + 1" for z
    by (simp_all add: round_half_even_def Let_def)
  show ?thesis
  proof (cases "\<lfloor>x\<rfloor> = \<lfloor>y\<rfloor>")
    case True
    then have "x - of_int \<lfloor>x\<rfloor> \<le> y - of_int \<lfloor>y\<rfloor>" using xy by simp
    then show ?thesis using True by (auto simp: round_half_even_def Let_def)
  next
    case False
    then have "\<lfloor>x\<rfloor> < \<lfloor>y\<rfloor>" using xy floor_mono [of x y] by linarith
    then show ?thesis using hi [of x] lo [of y] by linarith
  qed
qed

lemma round_ndigits_mono: "x \<le> y \<Longrightarrow> round_ndigits x d \<le> round_ndigits y d"
proof -
  assume "x \<le> y"
  then have "x * 10 ^ d \<le> y * 10 ^ d" by simp
  then have "round_half_even (x * 10 ^ d) \<le> round_half_even (y * 10 ^ d)"
    by (rule round_half_even_mono)
  then show ?thesis by (simp add: round_ndigits_def divide_right_mono)
qed

lemma upt_2: "[0..<2] = [0, 1::nat]"
  by code_simp




text \<open>The histogram of one group: its shape, and the count of every bin written out.\<close>

lemma group_histogram_shape:
  assumes "1 \<le> nb" and "group_histogram grp nb = Inr hist"
  shows "length hist = nat nb"
    and "\<forall>i. Suc i < nat nb \<longrightarrow> bin_end (hist ! i) = bin_start (hist ! Suc i)"
    and "\<forall>i < nat nb. bin_start (hist ! i) \<le> bin_end (hist ! i)"
    and "bin_start (hd hist) = 0"
    and "bin_end (last hist) = 1"
proof -
  define n where "n = nat nb"
  have n: "0 < n" using assms(1) by (simp add: n_def)
  from group_histogram_Inr [OF assms(1), of grp] assms(2) obtain counts where
    hist: "hist = map (\<lambda>i. \<lparr> bin_start = round_ndigits (real i / real n) 10,
                            bin_end = round_ndigits (real (Suc i) / real n) 10,
                            count = counts ! i \<rparr>) [0..<n]"
    by (auto simp: n_def)
  show len: "length hist = nat nb" by (simp add: hist n_def)
  show "\<forall>i. Suc i < nat nb \<longrightarrow> bin_end (hist ! i) = bin_start (hist ! Suc i)"
    by (simp add: hist n_def)
  have "round_ndigits (real i / real n) 10 \<le> round_ndigits (real (Suc i) / real n) 10" for i
    by (intro round_ndigits_mono divide_right_mono) simp_all
  note m = this
  show "\<forall>i < nat nb. bin_start (hist ! i) \<le> bin_end (hist ! i)"
  proof (intro allI impI)
    fix i
    assume "i < nat nb"
    then have "i < n" by (simp add: n_def)
    then have "bin_start (hist ! i) = round_ndigits (real i / real n) 10"
      "bin_end (hist ! i) = round_ndigits (real (Suc i) / real n) 10"
      by (simp_all add: hist)
    then show "bin_start (hist ! i) \<le> bin_end (hist ! i)"
      using m [of i] by (simp only:)
  qed
  have ne: "hist \<noteq> []" using n by (simp add: hist)
  have "hd hist = hist ! 0" by (rule hd_conv_nth [OF ne])
  then show "bin_start (hd hist) = 0"
    using n by (simp add: hist round_ndigits_0)
  have "last hist = hist ! (n - 1)" using last_conv_nth [OF ne] by (simp add: hist)
  moreover have "real (Suc (n - 1)) / real n = 1" using n by simp
  ultimately show "bin_end (last hist) = 1"
    using n by (simp add: hist round_ndigits_1)
qed

lemma group_histogram_eval:
  assumes "1 \<le> nb"
  shows "group_histogram grp nb =
     Inr (map (\<lambda>i. \<lparr> bin_start = round_ndigits (real i / real (nat nb)) 10,
                     bin_end = round_ndigits (real (Suc i) / real (nat nb)) 10,
                     count = int (length (filter (\<lambda>v. 0 \<le> v \<and> v \<le> 1 \<and> bin_index (nat nb) v = i)
                                    (group_vafs grp))) \<rparr>) [0..<nat nb])"
proof -
  have "vega_formatted_hist
          (map (\<lambda>i. int (length (filter (\<lambda>j. j = i)
                  (map (bin_index (nat nb)) (filter (\<lambda>v. 0 \<le> v \<and> v \<le> 1) (group_vafs grp))))))
             [0..<nat nb])
          (map (\<lambda>x. round_ndigits x 10) (np_linspace01 (nat nb)))
        = map (\<lambda>i. \<lparr> bin_start = round_ndigits (real i / real (nat nb)) 10,
                     bin_end = round_ndigits (real (Suc i) / real (nat nb)) 10,
                     count = int (length (filter (\<lambda>v. 0 \<le> v \<and> v \<le> 1 \<and> bin_index (nat nb) v = i)
                                    (group_vafs grp))) \<rparr>) [0..<nat nb]"
    unfolding vega_formatted_hist_eq
    by (rule nth_equalityI)
       (simp_all add: length_np_linspace01 np_linspace01_nth length_filter_map comp_def conj_ac)
  then show ?thesis
    using assms by (simp add: group_histogram_def np_histogram_def Let_def)
qed


lemma histograms_key:
  assumes "1 \<le> nb" and "vaf_histograms_by_genotype stats nb = Inr h" and "x \<in> set stats"
  shows "\<exists>hist. (genotype x, hist) \<in> set h \<and> map_of h (genotype x) = Some hist"
proof -
  from histograms_Inr [OF assms(1), of stats] assms(2) have
    d: "distinct (map fst h)" and k: "fst ` set h = genotype ` set stats"
    by auto
  from k assms(3) have "genotype x \<in> fst ` set h" by auto
  then obtain hist where "(genotype x, hist) \<in> set h" by force
  then show ?thesis using d by (auto intro: map_of_is_SomeI)
qed


text \<open>
  C10. With a positive number of bins, the histogram of every genotype has exactly that
  many entries; the \<open>bin_end\<close> of each entry is the \<open>bin_start\<close> of the next; the bins
  ascend (no \<open>bin_start\<close> is above its \<open>bin_end\<close>); the first \<open>bin_start\<close> is 0 and the
  last \<open>bin_end\<close> is 1.
\<close>

theorem bins_contiguous:
  assumes "0 < nb"
  shows "\<exists>h. vaf_histograms_by_genotype stats nb = Inr h
           \<and> (\<forall>(g, hist) \<in> set h.
                 length hist = nat nb
               \<and> (\<forall>i. Suc i < nat nb \<longrightarrow> bin_end (hist ! i) = bin_start (hist ! Suc i))
               \<and> (\<forall>i < nat nb. bin_start (hist ! i) \<le> bin_end (hist ! i))
               \<and> bin_start (hd hist) = 0
               \<and> bin_end (last hist) = 1)"
proof -
  have nb: "1 \<le> nb" using assms by simp
  from histograms_Inr [OF nb, of stats] obtain h where
    h: "vaf_histograms_by_genotype stats nb = Inr h"
       "\<forall>(g, hist) \<in> set h.
           group_histogram (filter (\<lambda>x. genotype x = g) (sort_key genotype stats)) nb = Inr hist"
    by blast
  have "length hist = nat nb
      \<and> (\<forall>i. Suc i < nat nb \<longrightarrow> bin_end (hist ! i) = bin_start (hist ! Suc i))
      \<and> (\<forall>i < nat nb. bin_start (hist ! i) \<le> bin_end (hist ! i))
      \<and> bin_start (hd hist) = 0
      \<and> bin_end (last hist) = 1"
    if "(g, hist) \<in> set h" for g hist
  proof -
    from that h(2) have
      "group_histogram (filter (\<lambda>x. genotype x = g) (sort_key genotype stats)) nb = Inr hist"
      by auto
    from group_histogram_shape [OF nb this] show ?thesis by blast
  qed
  with h(1) show ?thesis by blast
qed

theorem bins_contiguous_witness:
  "0 < (4::int)
 \<and> (\<exists>h hist. vaf_histograms_by_genotype [snp_stats, refcall_stats] 4 = Inr h
       \<and> (''[0, 0]'', hist) \<in> set h
       \<and> length hist = 4
       \<and> bin_end (hist ! 0) = bin_start (hist ! 1)
       \<and> bin_end (hist ! 1) = bin_start (hist ! 2)
       \<and> bin_end (hist ! 2) = bin_start (hist ! 3)
       \<and> bin_start (hd hist) = 0
       \<and> bin_end (last hist) = 1)"
proof -
  from bins_contiguous [of 4 "[snp_stats, refcall_stats]"] obtain h where
    h: "vaf_histograms_by_genotype [snp_stats, refcall_stats] 4 = Inr h"
    and b: "\<forall>(g, hist) \<in> set h.
                 length hist = nat 4
               \<and> (\<forall>i. Suc i < nat 4 \<longrightarrow> bin_end (hist ! i) = bin_start (hist ! Suc i))
               \<and> (\<forall>i < nat 4. bin_start (hist ! i) \<le> bin_end (hist ! i))
               \<and> bin_start (hd hist) = 0
               \<and> bin_end (last hist) = 1"
    by auto
  have g: "genotype refcall_stats = ''[0, 0]''" by (simp add: refcall_stats_def)
  from histograms_key [OF _ h, of refcall_stats] obtain hist where
    m: "(''[0, 0]'', hist) \<in> set h" by (auto simp: g)
  with b have p: "length hist = nat 4"
    "\<forall>i. Suc i < nat 4 \<longrightarrow> bin_end (hist ! i) = bin_start (hist ! Suc i)"
    "bin_start (hd hist) = 0" "bin_end (last hist) = 1"
    by auto
  from p(2) have "bin_end (hist ! 0) = bin_start (hist ! 1)"
    "bin_end (hist ! 1) = bin_start (hist ! 2)" "bin_end (hist ! 2) = bin_start (hist ! 3)"
    using p(2) [rule_format, of 0] p(2) [rule_format, of 1] p(2) [rule_format, of 2]
    by (simp_all add: eval_nat_numeral)
  with p h m show ?thesis by (intro conjI exI [of _ h] exI [of _ hist]) simp_all
qed




text \<open>
  C8. A genotype that occurs in the input and whose records all have no vaf is a key of
  every mapping the operation returns, and its histogram has the bins of every other
  genotype's histogram, each with the count 0. (The operation returns a mapping for every
  positive number of bins; a non-positive one makes \<^verbatim>\<open>np.histogram\<close> raise.)
\<close>

theorem empty_group_histogram:
  assumes "g \<in> genotype ` set stats"
    and "\<forall>x \<in> set stats. genotype x = g \<longrightarrow> vaf x = None"
  shows "(0 < nb \<longrightarrow> (\<exists>h. vaf_histograms_by_genotype stats nb = Inr h))
       \<and> (\<forall>h. vaf_histograms_by_genotype stats nb = Inr h \<longrightarrow>
             (\<exists>hist. map_of h g = Some hist
                \<and> hist = map (\<lambda>i. \<lparr> bin_start = round_ndigits (real i / real (nat nb)) 10,
                                      bin_end = round_ndigits (real (Suc i) / real (nat nb)) 10,
                                      count = 0 \<rparr>) [0..<nat nb]
                \<and> (\<forall>(g', hist') \<in> set h. map bin_start hist' = map bin_start hist
                                           \<and> map bin_end hist' = map bin_end hist)))"
proof (intro conjI impI allI)
  assume "0 < nb"
  then show "\<exists>h. vaf_histograms_by_genotype stats nb = Inr h"
    using histograms_Inr [of nb stats] by auto
next
  fix h
  assume r: "vaf_histograms_by_genotype stats nb = Inr h"
  from assms(1) obtain x where x: "x \<in> set stats" "genotype x = g" by auto
  then have "stats \<noteq> []" by auto
  then have nb: "1 \<le> nb" using histograms_Inl [of nb stats] r by (cases "nb < 1") auto
  from histograms_Inr [OF nb, of stats] r have
    h: "\<forall>(g, hist) \<in> set h.
           group_histogram (filter (\<lambda>x. genotype x = g) (sort_key genotype stats)) nb = Inr hist"
    by auto
  from histograms_key [OF nb r x(1)] obtain hist where
    m: "(g, hist) \<in> set h" "map_of h g = Some hist" by (auto simp: x(2))
  have "group_vafs (filter (\<lambda>x. genotype x = g) (sort_key genotype stats)) = []"
    using assms(2) by (auto simp: group_vafs_def filter_empty_conv)
  moreover have "group_histogram (filter (\<lambda>x. genotype x = g) (sort_key genotype stats)) nb
      = Inr hist"
    using h m(1) by auto
  ultimately have hist: "hist = map (\<lambda>i. \<lparr> bin_start = round_ndigits (real i / real (nat nb)) 10,
                                 bin_end = round_ndigits (real (Suc i) / real (nat nb)) 10,
                                 count = 0 \<rparr>) [0..<nat nb]"
    by (simp add: group_histogram_eval [OF nb])
  have "map bin_start hist' = map bin_start hist \<and> map bin_end hist' = map bin_end hist"
    if "(g', hist') \<in> set h" for g' hist'
  proof -
    from that h have
      "group_histogram (filter (\<lambda>x. genotype x = g') (sort_key genotype stats)) nb = Inr hist'"
      by auto
    then show ?thesis
      unfolding hist by (auto simp: group_histogram_eval [OF nb] comp_def)
  qed
  with m(2) hist show "\<exists>hist. map_of h g = Some hist
                \<and> hist = map (\<lambda>i. \<lparr> bin_start = round_ndigits (real i / real (nat nb)) 10,
                                      bin_end = round_ndigits (real (Suc i) / real (nat nb)) 10,
                                      count = 0 \<rparr>) [0..<nat nb]
                \<and> (\<forall>(g', hist') \<in> set h. map bin_start hist' = map bin_start hist
                                           \<and> map bin_end hist' = map bin_end hist)"
    by blast
qed

theorem empty_group_histogram_witness:
  "''[0, 0]'' \<in> genotype ` set [snp_stats, refcall_stats \<lparr> vaf := None \<rparr>]
 \<and> vaf (refcall_stats \<lparr> vaf := None \<rparr>) = None
 \<and> (\<exists>h. vaf_histograms_by_genotype [snp_stats, refcall_stats \<lparr> vaf := None \<rparr>] 2 = Inr h
        \<and> map_of h ''[0, 0]'' = Some [\<lparr> bin_start = 0, bin_end = 1 / 2, count = 0 \<rparr>,
                                       \<lparr> bin_start = 1 / 2, bin_end = 1, count = 0 \<rparr>])"
proof -
  have a: "''[0, 0]'' \<in> genotype ` set [snp_stats, refcall_stats \<lparr> vaf := None \<rparr>]"
    by (simp add: refcall_stats_def)
  have b: "\<forall>x \<in> set [snp_stats, refcall_stats \<lparr> vaf := None \<rparr>].
             genotype x = ''[0, 0]'' \<longrightarrow> vaf x = None"
    by (simp add: snp_stats_def)
  have r: "round_ndigits (1 / 2) 10 = 1 / 2" "round_ndigits 1 10 = 1" "round_ndigits 0 10 = 0"
    using round_ndigits_halves [of 1] by (simp_all add: round_ndigits_1 round_ndigits_0)
  note t = empty_group_histogram [OF a b, of 2]
  from t obtain h where
    h: "vaf_histograms_by_genotype [snp_stats, refcall_stats \<lparr> vaf := None \<rparr>] 2 = Inr h"
    by auto
  with t have "map_of h ''[0, 0]'' = Some [\<lparr> bin_start = 0, bin_end = 1 / 2, count = 0 \<rparr>,
                                 \<lparr> bin_start = 1 / 2, bin_end = 1, count = 0 \<rparr>]"
    by (auto simp: upt_2 r)
  with a h show ?thesis by simp
qed

end
